theory Spec2Isabelle
  imports Main "HOL-Library.AList"
begin

section \<open>Values, objects and the state of one TableProxy\<close>

text \<open>
  A JavaScript value is a scalar or a reference to an object. A reference is either the
  object itself (\<open>Raw a\<close>, the object stored at address \<open>a\<close>) or the \<open>Proxy\<close> that
  \<open>createDeepProxy\<close> built over it (\<open>Prx a r\<close>): the proxy of target \<open>a\<close> whose traps
  close over the callback \<open>onChange\<close>. The only callback the program ever passes is the
  closure \<open>() => this._queueOperation(row, "save")\<close> made in \<open>_wrapRow\<close>, so a callback is
  named by the address \<open>r\<close> of the row it captured. Strict (in)equality \<open>!==\<close> is equality
  of values: scalars by value, references by identity, a proxy differing from its target.
  Numbers are integers here (row identities and positions); \<open>NaN\<close> does not occur.
\<close>

datatype ref = Raw nat | Prx nat nat

datatype val = Undefined | Null | Bool bool | Num int | Str string | Obj ref

datatype optype = Save | Delete

text \<open>
  A serialised column value: the scalar itself, or \<open>JSON.stringify\<close> of a composite, kept
  symbolic as the reference it was applied to (the library call is not part of the
  repository; the property reads it performs on its argument are not modelled).
\<close>

datatype cell = Plain val | Json ref

datatype stmt = Upsert "(string \<times> cell) list list" | DeleteIn "val list"

text \<open>
  An object: its enumerable own properties in insertion order (what \<open>Object.keys\<close>
  lists; names that look like array indices, which JavaScript lists first, get no
  special treatment), whether it carries the symbol-keyed \<open>INTERNAL\<close> marker, and
  whether the non-enumerable \<open>_internal\<close> property has been defined on it. A property
  is looked up among the own properties only: rows and their nested values are plain
  data, and what they inherit from \<open>Object.prototype\<close> is not modelled.
\<close>

record obj =
  props :: "(string \<times> val) list"
  marker :: bool
  tagged :: bool

text \<open>
  The state: the store of objects, the fields of the \<open>TableProxy\<close> instance
  (\<open>rows\<close>, \<open>operationQueue\<close>, a \<open>Map\<close> in insertion order, and \<open>queueTimer\<close>), and the
  environment the instance talks to: the clock in milliseconds, the deadlines of the
  pending \<open>setTimeout\<close> calls, the statements handed to the database so far, and the
  timer callbacks suspended at \<open>await\<close> of the insert, each holding its local \<open>deletes\<close>.
\<close>

record mirror =
  heap :: "nat \<Rightarrow> obj"
  rows :: "ref list"
  operationQueue :: "(val \<times> ref \<times> optype) list"
  queueTimer :: "nat option"
  clock :: nat
  timeouts :: "nat list"
  gateway :: "stmt list"
  suspended :: "(ref \<times> optype) list list"

fun addr :: "ref \<Rightarrow> nat" where
  "addr (Raw a) = a"
| "addr (Prx a r) = a"

definition getp :: "obj \<Rightarrow> string \<Rightarrow> val" where
  "getp ob prop = (case map_of (props ob) prop of None \<Rightarrow> Undefined | Some v \<Rightarrow> v)"

definition setp :: "obj \<Rightarrow> string \<Rightarrow> val \<Rightarrow> obj" where
  "setp ob prop v = ob\<lparr>props := AList.update prop v (props ob)\<rparr>"

definition delp :: "obj \<Rightarrow> string \<Rightarrow> obj" where
  "delp ob prop = ob\<lparr>props := AList.delete prop (props ob)\<rparr>"

text \<open>\<open>Reflect.set(t, prop, v)\<close> and \<open>Reflect.deleteProperty(t, prop)\<close> on a target.\<close>

definition Reflect_set :: "nat \<Rightarrow> string \<Rightarrow> val \<Rightarrow> mirror \<Rightarrow> mirror" where
  "Reflect_set t prop v s = s\<lparr>heap := (heap s)(t := setp (heap s t) prop v)\<rparr>"

definition Reflect_deleteProperty :: "nat \<Rightarrow> string \<Rightarrow> mirror \<Rightarrow> mirror" where
  "Reflect_deleteProperty t prop s = s\<lparr>heap := (heap s)(t := delp (heap s t) prop)\<rparr>"

section \<open>The operation queue and the debounce timer\<close>

text \<open>
  Lines 87 to 122 of \<open>_queueOperation\<close>: \<open>operationQueue.set(key, {row, type})\<close>, then
  return if a timer is pending, else \<open>setTimeout(callback, 500)\<close>.
\<close>

definition enqueue :: "val \<Rightarrow> ref \<Rightarrow> optype \<Rightarrow> mirror \<Rightarrow> mirror" where
  "enqueue k row ty s =
    (let s1 = s\<lparr>operationQueue := AList.update k (row, ty) (operationQueue s)\<rparr>
     in if queueTimer s1 \<noteq> None then s1
        else s1\<lparr>queueTimer := Some (clock s1 + 500), timeouts := timeouts s1 @ [clock s1 + 500]\<rparr>)"

text \<open>
  The closure \<open>() => this._queueOperation(row, "save")\<close> of \<open>_wrapRow\<close>, where \<open>row\<close> is
  the unwrapped object at address \<open>r\<close>, so that its property accesses run no trap.
\<close>

definition onChange :: "nat \<Rightarrow> mirror \<Rightarrow> mirror" where
  "onChange r s =
    (let s1 = (if getp (heap s r) ''_idx'' = Undefined
               then Reflect_set r ''_idx'' (Num (int (length (rows s)))) s else s)
     in enqueue (getp (heap s1 r) ''_idx'') (Raw r) Save s1)"

section \<open>createDeepProxy and its traps\<close>

text \<open>
  \<open>createDeepProxy(target, onChange)\<close>. A scalar is returned as it is, and so is a marked
  target; a proxy always reads as marked, since it exists only over a target that
  \<open>createDeepProxy\<close> marked. Otherwise the proxy is made and \<open>proxy[INTERNAL] = true\<close> runs
  through the proxy's own set trap: the old value is \<open>undefined\<close>, the marker is written
  on the target, and since \<open>undefined !== true\<close> the callback is called.
\<close>

fun createDeepProxy :: "val \<Rightarrow> nat \<Rightarrow> mirror \<Rightarrow> val \<times> mirror" where
  "createDeepProxy (Obj (Raw a)) r s =
    (if marker (heap s a) then (Obj (Raw a), s)
     else (Obj (Prx a r), onChange r (s\<lparr>heap := (heap s)(a := (heap s a)\<lparr>marker := True\<rparr>)\<rparr>)))"
| "createDeepProxy (Obj (Prx a r')) r s = (Obj (Prx a r'), s)"
| "createDeepProxy v r s = (v, s)"

definition get_trap :: "nat \<Rightarrow> nat \<Rightarrow> string \<Rightarrow> mirror \<Rightarrow> val \<times> mirror" where
  "get_trap t r prop s =
    (let v = getp (heap s t) prop
     in case v of
          Obj x \<Rightarrow> (let (proxied, s1) = createDeepProxy v r s
                    in (proxied, Reflect_set t prop proxied s1))
        | _ \<Rightarrow> (v, s))"

definition set_trap :: "nat \<Rightarrow> nat \<Rightarrow> string \<Rightarrow> val \<Rightarrow> mirror \<Rightarrow> mirror" where
  "set_trap t r prop v s =
    (let oldValue = getp (heap s t) prop;
         s1 = Reflect_set t prop v s
     in if oldValue \<noteq> v then onChange r s1 else s1)"

definition deleteProperty_trap :: "nat \<Rightarrow> nat \<Rightarrow> string \<Rightarrow> mirror \<Rightarrow> mirror" where
  "deleteProperty_trap t r prop s = onChange r (Reflect_deleteProperty t prop s)"

text \<open>Property access \<open>o[prop]\<close>, \<open>o[prop] = v\<close> and \<open>delete o[prop]\<close> on a reference.\<close>

fun js_get :: "ref \<Rightarrow> string \<Rightarrow> mirror \<Rightarrow> val \<times> mirror" where
  "js_get (Raw a) prop s = (getp (heap s a) prop, s)"
| "js_get (Prx t r) prop s = get_trap t r prop s"

fun js_set :: "ref \<Rightarrow> string \<Rightarrow> val \<Rightarrow> mirror \<Rightarrow> mirror" where
  "js_set (Raw a) prop v s = Reflect_set a prop v s"
| "js_set (Prx t r) prop v s = set_trap t r prop v s"

fun js_delete :: "ref \<Rightarrow> string \<Rightarrow> mirror \<Rightarrow> mirror" where
  "js_delete (Raw a) prop s = Reflect_deleteProperty a prop s"
| "js_delete (Prx t r) prop s = deleteProperty_trap t r prop s"

section \<open>TableProxy\<close>

text \<open>
  \<open>_queueOperation(row, type)\<close> for any reference \<open>row\<close>; on an unwrapped row and type
  \<open>save\<close> it is \<open>onChange\<close> above.
\<close>

definition queueOperation :: "ref \<Rightarrow> optype \<Rightarrow> mirror \<Rightarrow> mirror" where
  "queueOperation row ty s =
    (let (i, s1) = js_get row ''_idx'' s;
         s2 = (if i = Undefined then js_set row ''_idx'' (Num (int (length (rows s1)))) s1 else s1);
         (k, s3) = js_get row ''_idx'' s2
     in enqueue k row ty s3)"

text \<open>
  \<open>Object.defineProperty(proxiedRow, "_internal", {enumerable: false, ...})\<close>: the proxy
  has no trap for it, so the target gets the hidden property. Only the fact that it is
  defined is kept, not its value \<open>{ _isProxy: true }\<close>: a read of the name \<open>_internal\<close>
  itself is outside the model.
\<close>

definition tag :: "obj \<Rightarrow> obj" where
  "tag ob = ob\<lparr>props := AList.delete ''_internal'' (props ob), tagged := True\<rparr>"

definition wrapRow :: "ref \<Rightarrow> mirror \<Rightarrow> ref \<times> mirror" where
  "wrapRow row s =
    (if marker (heap s (addr row)) then (row, s)
     else (let (p, s1) = createDeepProxy (Obj row) (addr row) s
           in case p of
                Obj pr \<Rightarrow> (pr, s1\<lparr>heap := (heap s1)(addr pr := tag (heap s1 (addr pr)))\<rparr>)
              | _ \<Rightarrow> (row, s1)))"

text \<open>
  The constructor's fields. \<open>rows\<close> is \<open>null\<close> until \<open>init\<close> assigns it; it is read in
  between only by the fallback of \<open>_queueOperation\<close>, which \<open>init\<close> does not reach, as
  every loaded row has an \<open>_idx\<close> by then. It is the empty list here.
\<close>

definition new_mirror :: "(nat \<Rightarrow> obj) \<Rightarrow> mirror" where
  "new_mirror h = \<lparr>heap = h, rows = [], operationQueue = [], queueTimer = None,
                   clock = 0, timeouts = [], gateway = [], suspended = []\<rparr>"

text \<open>\<open>data.forEach((row, i) => { if (row._idx === undefined) row._idx = i })\<close>\<close>

fun assignIdx :: "nat list \<Rightarrow> nat \<Rightarrow> mirror \<Rightarrow> mirror" where
  "assignIdx [] i s = s"
| "assignIdx (row # data) i s =
    assignIdx data (Suc i)
      (if getp (heap s row) ''_idx'' = Undefined then Reflect_set row ''_idx'' (Num (int i)) s else s)"

text \<open>\<open>data.map((row) => this._wrapRow(row))\<close>\<close>

fun wrapRows :: "ref list \<Rightarrow> mirror \<Rightarrow> ref list \<times> mirror" where
  "wrapRows [] s = ([], s)"
| "wrapRows (row # data) s =
    (let (p, s1) = wrapRow row s;
         (ps, s2) = wrapRows data s1
     in (p # ps, s2))"

text \<open>\<open>init\<close>, given the objects the select returned (fresh, unwrapped) in their order.\<close>

definition init :: "nat list \<Rightarrow> mirror \<Rightarrow> mirror" where
  "init data s =
    (let s1 = assignIdx data 0 s;
         (ps, s2) = wrapRows (map Raw data) s1
     in s2\<lparr>rows := ps\<rparr>)"

definition push :: "ref \<Rightarrow> mirror \<Rightarrow> ref \<times> mirror" where
  "push row s =
    (let s1 = js_set row ''_idx'' (Num (int (length (rows s)))) s;
         (proxied, s2) = wrapRow row s1;
         s3 = s2\<lparr>rows := rows s2 @ [proxied]\<rparr>
     in (proxied, queueOperation proxied Save s3))"

text \<open>\<open>items.map((i, idx) => { i._idx = start + idx; return this._wrapRow(i) })\<close>\<close>

fun wrapItems :: "int \<Rightarrow> ref list \<Rightarrow> mirror \<Rightarrow> ref list \<times> mirror" where
  "wrapItems start [] s = ([], s)"
| "wrapItems start (i # items) s =
    (let s1 = js_set i ''_idx'' (Num start) s;
         (p, s2) = wrapRow i s1;
         (ps, s3) = wrapItems (start + 1) items s2
     in (p # ps, s3))"

text \<open>\<open>this.rows.forEach((row, idx) => (row._idx = idx))\<close>\<close>

fun reindex :: "ref list \<Rightarrow> nat \<Rightarrow> mirror \<Rightarrow> mirror" where
  "reindex [] idx s = s"
| "reindex (row # rs) idx s = reindex rs (Suc idx) (js_set row ''_idx'' (Num (int idx)) s)"

text \<open>
  \<open>splice(start, deleteCount, ...items)\<close>. \<open>Array.prototype.splice\<close> clamps a negative or
  too large \<open>start\<close> and \<open>deleteCount\<close>; the identities given to the items use \<open>start\<close>
  as passed. The arguments of the call are evaluated first, so the items are wrapped
  before the array changes.
\<close>

text \<open>\<open>this.rows.splice(start, deleteCount, ...wrapped)\<close>, which returns the removed rows.\<close>

definition spliceRows :: "int \<Rightarrow> int \<Rightarrow> ref list \<Rightarrow> mirror \<Rightarrow> ref list \<times> mirror" where
  "spliceRows start deleteCount wrapped s =
    (let len = length (rows s);
         actualStart = (if start < 0 then nat (max (int len + start) 0) else min (nat start) len);
         actualDeleteCount = nat (min (max deleteCount 0) (int len - int actualStart))
     in (take actualDeleteCount (drop actualStart (rows s)),
         s\<lparr>rows := take actualStart (rows s) @ wrapped
                        @ drop (actualStart + actualDeleteCount) (rows s)\<rparr>))"

text \<open>\<open>xs.forEach((r) => this._queueOperation(r, type))\<close>\<close>

definition enqueueAll :: "optype \<Rightarrow> ref list \<Rightarrow> mirror \<Rightarrow> mirror" where
  "enqueueAll ty xs s = foldl (\<lambda>s r. queueOperation r ty s) s xs"

text \<open>\<open>splice\<close> up to line 147: the rows are replaced and the deletes are queued.\<close>

definition spliceRemoved :: "int \<Rightarrow> int \<Rightarrow> ref list \<Rightarrow> mirror \<Rightarrow> ref list \<times> mirror" where
  "spliceRemoved start deleteCount items s =
    (let (wrapped, s1) = wrapItems start items s;
         (removed, s2) = spliceRows start deleteCount wrapped s1
     in (removed, enqueueAll Delete removed s2))"

text \<open>All of \<open>splice\<close>: then the saves of the items are queued and the rows reindexed.\<close>

definition splice :: "int \<Rightarrow> int \<Rightarrow> ref list \<Rightarrow> mirror \<Rightarrow> ref list \<times> mirror" where
  "splice start deleteCount items s =
    (let (removed, s3) = spliceRemoved start deleteCount items s;
         s4 = enqueueAll Save items s3
     in (removed, reindex (rows s4) 0 s4))"

section \<open>The timer callback\<close>

text \<open>
  One row of \<open>insertRows\<close>: \<open>{ _idx: op.row._idx }\<close> extended by every key of
  \<open>Object.keys(op.row)\<close> but \<open>_internal\<close>, a composite value stringified
  (\<open>typeof value === "object" && value !== null ? JSON.stringify(value) : value\<close>).
\<close>

definition toCell :: "val \<Rightarrow> cell" where
  "toCell v = (case v of Obj x \<Rightarrow> Json x | _ \<Rightarrow> Plain v)"

fun serializeKeys :: "ref \<Rightarrow> string list \<Rightarrow> (string \<times> cell) list \<Rightarrow> mirror
    \<Rightarrow> (string \<times> cell) list \<times> mirror" where
  "serializeKeys row [] rowToSave s = (rowToSave, s)"
| "serializeKeys row (key # keys) rowToSave s =
    (if key = ''_internal'' then serializeKeys row keys rowToSave s
     else (let (v, s1) = js_get row key s
           in serializeKeys row keys (AList.update key (toCell v) rowToSave) s1))"

definition serializeRow :: "ref \<Rightarrow> mirror \<Rightarrow> (string \<times> cell) list \<times> mirror" where
  "serializeRow row s =
    (let (i, s1) = js_get row ''_idx'' s
     in serializeKeys row (map fst (props (heap s1 (addr row)))) [(''_idx'', Plain i)] s1)"

fun serializeAll :: "(ref \<times> optype) list \<Rightarrow> mirror \<Rightarrow> (string \<times> cell) list list \<times> mirror" where
  "serializeAll [] s = ([], s)"
| "serializeAll (op # ops) s =
    (let (r, s1) = serializeRow (fst op) s;
         (rs, s2) = serializeAll ops s1
     in (r # rs, s2))"

text \<open>\<open>deletes.map((op) => op.row._idx)\<close>\<close>

fun readIds :: "(ref \<times> optype) list \<Rightarrow> mirror \<Rightarrow> val list \<times> mirror" where
  "readIds [] s = ([], s)"
| "readIds (op # ops) s =
    (let (i, s1) = js_get (fst op) ''_idx'' s;
         (ids, s2) = readIds ops s1
     in (i # ids, s2))"

text \<open>Lines 118 to 121: the delete statement, if there is anything to delete.\<close>

definition issueDelete :: "(ref \<times> optype) list \<Rightarrow> mirror \<Rightarrow> mirror" where
  "issueDelete deletes s =
    (if deletes \<noteq> [] then (let (ids, s1) = readIds deletes s
                            in s1\<lparr>gateway := gateway s1 @ [DeleteIn ids]\<rparr>)
     else s)"

text \<open>Lines 92 to 94: the snapshot, \<open>operationQueue.clear()\<close> and \<open>queueTimer = null\<close>.\<close>

definition snapshot :: "mirror \<Rightarrow> (ref \<times> optype) list \<times> mirror" where
  "snapshot s = (map snd (operationQueue s), s\<lparr>operationQueue := [], queueTimer := None\<rparr>)"

text \<open>
  Lines 96 to 121 up to the first suspension: with saves, the rows are serialised, the
  insert is issued and the callback waits for it, keeping \<open>deletes\<close>; without saves it
  goes on to the delete statement at once.
\<close>

definition flush :: "(ref \<times> optype) list \<Rightarrow> mirror \<Rightarrow> mirror" where
  "flush operations s =
    (let saves = filter (\<lambda>op. snd op = Save) operations;
         deletes = filter (\<lambda>op. snd op = Delete) operations
     in if saves \<noteq> []
        then (let (insertRows, s1) = serializeAll saves s
              in s1\<lparr>gateway := gateway s1 @ [Upsert insertRows],
                     suspended := suspended s1 @ [deletes]\<rparr>)
        else issueDelete deletes s)"

definition timerCallback :: "mirror \<Rightarrow> mirror" where
  "timerCallback s = (let (operations, s1) = snapshot s in flush operations s1)"

text \<open>
  The insert awaited by the \<open>k\<close>-th suspended callback resolves: the callback resumes at
  line 118. Or it is rejected: the \<open>await\<close> throws, the callback ends, nothing else runs.
\<close>

definition insertResolved :: "nat \<Rightarrow> mirror \<Rightarrow> mirror" where
  "insertResolved k s =
    (if k < length (suspended s)
     then issueDelete (suspended s ! k) (s\<lparr>suspended := take k (suspended s) @ drop (Suc k) (suspended s)\<rparr>)
     else s)"

definition insertRejected :: "nat \<Rightarrow> mirror \<Rightarrow> mirror" where
  "insertRejected k s = s\<lparr>suspended := take k (suspended s) @ drop (Suc k) (suspended s)\<rparr>"

text \<open>
  The environment runs the callback of a timeout once, when its deadline has passed, and
  forgets the timeout.
\<close>

definition fire :: "mirror \<Rightarrow> mirror" where
  "fire s =
    (case timeouts s of
       [] \<Rightarrow> s
     | d # ds \<Rightarrow> if d \<le> clock s then timerCallback (s\<lparr>timeouts := ds\<rparr>) else s)"

definition tick :: "nat \<Rightarrow> mirror \<Rightarrow> mirror" where
  "tick n s = s\<lparr>clock := clock s + n\<rparr>"

section \<open>Runs\<close>

text \<open>
  What can happen to a mirror after \<open>init\<close>: time passes, a due timer fires, an awaited
  insert settles, or the caller reads, writes or deletes a property of some reference it
  holds, or calls \<open>push\<close> or \<open>splice\<close>.
\<close>

datatype event =
    Tick nat
  | Fire
  | InsertResolved nat
  | InsertRejected nat
  | GetProp ref string
  | SetProp ref string val
  | DeleteProp ref string
  | Push ref
  | Splice int int "ref list"

fun step :: "mirror \<Rightarrow> event \<Rightarrow> mirror" where
  "step s (Tick n) = tick n s"
| "step s Fire = fire s"
| "step s (InsertResolved k) = insertResolved k s"
| "step s (InsertRejected k) = insertRejected k s"
| "step s (GetProp x prop) = snd (js_get x prop s)"
| "step s (SetProp x prop v) = js_set x prop v s"
| "step s (DeleteProp x prop) = js_delete x prop s"
| "step s (Push row) = snd (push row s)"
| "step s (Splice start deleteCount items) = snd (splice start deleteCount items s)"

definition run :: "event list \<Rightarrow> mirror \<Rightarrow> mirror" where
  "run es s = foldl step s es"

section \<open>Properties of states and runs\<close>

text \<open>
  Between two states of one synchronous stretch of code the timer is either untouched or
  has gone from idle to armed, once, with the deadline 500 ms after the present.
\<close>

definition arm :: "mirror \<Rightarrow> mirror \<Rightarrow> bool" where
  "arm s s' \<longleftrightarrow>
     (queueTimer s' = queueTimer s \<and> timeouts s' = timeouts s) \<or>
     (queueTimer s = None \<and> queueTimer s' = Some (clock s + 500) \<and>
      timeouts s' = timeouts s @ [clock s + 500])"

text \<open>
  What every operation on tracked values leaves alone: the row sequence, the clock, the
  statements issued and the suspended callbacks; the timer at most gets armed; the keys
  of the queue stay distinct.
\<close>

definition steady :: "mirror \<Rightarrow> mirror \<Rightarrow> bool" where
  "steady s s' \<longleftrightarrow>
     rows s' = rows s \<and> clock s' = clock s \<and> gateway s' = gateway s \<and>
     suspended s' = suspended s \<and> arm s s' \<and>
     (distinct (map fst (operationQueue s)) \<longrightarrow> distinct (map fst (operationQueue s')))"

text \<open>The same for \<open>push\<close> and \<open>splice\<close>, which change the row sequence.\<close>

definition quiet :: "mirror \<Rightarrow> mirror \<Rightarrow> bool" where
  "quiet s s' \<longleftrightarrow>
     clock s' = clock s \<and> gateway s' = gateway s \<and> suspended s' = suspended s \<and> arm s s' \<and>
     (distinct (map fst (operationQueue s)) \<longrightarrow> distinct (map fst (operationQueue s')))"

text \<open>An object that has a numeric \<open>_idx\<close> keeps it.\<close>

definition idx_stable :: "mirror \<Rightarrow> mirror \<Rightarrow> bool" where
  "idx_stable s s' \<longleftrightarrow>
     (\<forall>a i. getp (heap s a) ''_idx'' = Num i \<longrightarrow> getp (heap s' a) ''_idx'' = Num i)"

text \<open>The instance's timer handle agrees with the environment's pending timeouts.\<close>

definition timer_ok :: "mirror \<Rightarrow> bool" where
  "timer_ok s \<longleftrightarrow> timeouts s = (case queueTimer s of None \<Rightarrow> [] | Some d \<Rightarrow> [d])"

text \<open>What holds of the timer and of the queue in every state a run reaches.\<close>

definition queue_ok :: "mirror \<Rightarrow> bool" where
  "queue_ok s \<longleftrightarrow> timer_ok s \<and> distinct (map fst (operationQueue s))"

text \<open>The events that are calls of the caller into the mirror or its tracked values.\<close>

fun mutation :: "event \<Rightarrow> bool" where
  "mutation (GetProp x prop) = True"
| "mutation (SetProp x prop v) = True"
| "mutation (DeleteProp x prop) = True"
| "mutation (Push row) = True"
| "mutation (Splice start deleteCount items) = True"
| "mutation e = False"

text \<open>Every row's \<open>_idx\<close> is its position in \<open>rows\<close>, the rows being different objects.\<close>

definition indexed :: "mirror \<Rightarrow> bool" where
  "indexed s \<longleftrightarrow>
     distinct (map addr (rows s)) \<and>
     (\<forall>i < length (rows s). getp (heap s (addr (rows s ! i))) ''_idx'' = Num (int i))"

text \<open>
  A caller that leaves the identities to the mirror: it never writes or deletes \<open>_idx\<close>
  itself, and the objects it hands to \<open>push\<close> and \<open>splice\<close> are different from each
  other and from the rows the mirror holds.
\<close>

fun careful :: "mirror \<Rightarrow> event \<Rightarrow> bool" where
  "careful s (SetProp x prop v) = (prop \<noteq> ''_idx'')"
| "careful s (DeleteProp x prop) = (prop \<noteq> ''_idx'')"
| "careful s (Push row) = (addr row \<notin> set (map addr (rows s)))"
| "careful s (Splice start deleteCount items) =
     (distinct (map addr items) \<and> (\<forall>i \<in> set items. addr i \<notin> set (map addr (rows s))))"
| "careful s e = True"

fun careful_run :: "mirror \<Rightarrow> event list \<Rightarrow> bool" where
  "careful_run s [] = True"
| "careful_run s (e # es) = (careful s e \<and> careful_run (step s e) es)"

text \<open>Successive writes \<open>row[prop] = v\<close> to one row.\<close>

definition writes :: "ref \<Rightarrow> (string \<times> val) list \<Rightarrow> mirror \<Rightarrow> mirror" where
  "writes row ws s = foldl (\<lambda>s w. js_set row (fst w) (snd w) s) s ws"

section \<open>A table of two rows\<close>

definition plain :: "(string \<times> val) list \<Rightarrow> obj" where
  "plain ps = \<lparr>props = ps, marker = False, tagged = False\<rparr>"

text \<open>
  The objects 0 and 1 are the rows \<open>{_idx: 0, name: "a"}\<close> and \<open>{_idx: 1, name: "b"}\<close>;
  object 2 is \<open>{name: "c"}\<close>, object 3 is \<open>{label: "x", extra: object 4}\<close>, and
  every other object is empty.
\<close>

definition two_rows :: "nat \<Rightarrow> obj" where
  "two_rows = (\<lambda>a. plain [])
     (0 := plain [(''_idx'', Num 0), (''name'', Str ''a'')],
      1 := plain [(''_idx'', Num 1), (''name'', Str ''b'')],
      2 := plain [(''name'', Str ''c'')],
      3 := plain [(''label'', Str ''x''), (''extra'', Obj (Raw 4))])"

definition loaded :: mirror where
  "loaded = init [0, 1] (new_mirror two_rows)"

text \<open>The same mirror once its first timer has fired and the insert has resolved.\<close>

definition settled :: mirror where
  "settled = run [Tick 500, Fire, InsertResolved 0] loaded"

section \<open>Frame lemmas\<close>

lemma getp_setp [simp]: "getp (setp ob p v) q = (if q = p then v else getp ob q)"
  by (simp add: getp_def setp_def update_conv')

lemma getp_delp [simp]: "getp (delp ob p) q = (if q = p then Undefined else getp ob q)"
  by (simp add: getp_def delp_def delete_conv')

lemma getp_marker_update [simp]: "getp (ob\<lparr>marker := m\<rparr>) q = getp ob q"
  by (simp add: getp_def)

lemma getp_tag [simp]: "q \<noteq> ''_internal'' \<Longrightarrow> getp (tag ob) q = getp ob q"
  by (simp add: getp_def tag_def delete_conv')

lemma steady_refl [simp]: "steady s s"
  by (simp add: steady_def arm_def)

lemma steady_heap: "steady s0 s \<Longrightarrow> steady s0 (s\<lparr>heap := h\<rparr>)"
  by (simp add: steady_def arm_def)

lemma steady_enqueue: "steady s0 s \<Longrightarrow> steady s0 (enqueue k row ty s)"
  by (auto simp: steady_def arm_def enqueue_def Let_def distinct_update)

lemma steady_Reflect_set: "steady s0 s \<Longrightarrow> steady s0 (Reflect_set t p v s)"
  by (simp add: Reflect_set_def steady_heap)

lemma steady_Reflect_deleteProperty: "steady s0 s \<Longrightarrow> steady s0 (Reflect_deleteProperty t p s)"
  by (simp add: Reflect_deleteProperty_def steady_heap)

lemma steady_onChange: "steady s0 s \<Longrightarrow> steady s0 (onChange r s)"
  by (simp add: onChange_def Let_def steady_enqueue steady_Reflect_set)

lemma steady_createDeepProxy: "steady s0 s \<Longrightarrow> steady s0 (snd (createDeepProxy v r s))"
  by (cases "(v, r, s)" rule: createDeepProxy.cases) (auto simp: steady_onChange steady_heap)

lemma steady_get_trap: "steady s0 s \<Longrightarrow> steady s0 (snd (get_trap t r p s))"
  by (auto simp: get_trap_def Let_def case_prod_beta steady_Reflect_set steady_createDeepProxy split: val.splits)

lemma steady_set_trap: "steady s0 s \<Longrightarrow> steady s0 (set_trap t r p v s)"
  by (simp add: set_trap_def Let_def steady_onChange steady_Reflect_set)

lemma steady_deleteProperty_trap: "steady s0 s \<Longrightarrow> steady s0 (deleteProperty_trap t r p s)"
  by (simp add: deleteProperty_trap_def steady_onChange steady_Reflect_deleteProperty)

lemma steady_js_get: "steady s0 s \<Longrightarrow> steady s0 (snd (js_get x p s))"
  by (cases x) (simp_all add: steady_get_trap)

lemma steady_js_set: "steady s0 s \<Longrightarrow> steady s0 (js_set x p v s)"
  by (cases x) (simp_all add: steady_set_trap steady_Reflect_set)

lemma steady_js_delete: "steady s0 s \<Longrightarrow> steady s0 (js_delete x p s)"
  by (cases x) (simp_all add: steady_deleteProperty_trap steady_Reflect_deleteProperty)

lemma steady_queueOperation: "steady s0 s \<Longrightarrow> steady s0 (queueOperation row ty s)"
  by (simp add: queueOperation_def Let_def case_prod_beta steady_enqueue steady_js_get steady_js_set)

lemma steady_wrapRow: "steady s0 s \<Longrightarrow> steady s0 (snd (wrapRow row s))"
  by (auto simp: wrapRow_def Let_def case_prod_beta steady_heap steady_createDeepProxy split: val.splits)

lemma steady_wrapRows: "steady s0 s \<Longrightarrow> steady s0 (snd (wrapRows data s))"
  by (induction data arbitrary: s) (simp_all add: case_prod_beta steady_wrapRow)

lemma steady_wrapItems: "steady s0 s \<Longrightarrow> steady s0 (snd (wrapItems start items s))"
  by (induction items arbitrary: s start) (simp_all add: Let_def case_prod_beta steady_wrapRow steady_js_set)

lemma steady_reindex: "steady s0 s \<Longrightarrow> steady s0 (reindex rs i s)"
  by (induction rs arbitrary: s i) (simp_all add: steady_js_set)

lemma steady_foldl_queue: "steady s0 s \<Longrightarrow> steady s0 (foldl (\<lambda>s r. queueOperation r ty s) s rs)"
  by (induction rs arbitrary: s) (simp_all add: steady_queueOperation)

lemma steady_serializeKeys: "steady s0 s \<Longrightarrow> steady s0 (snd (serializeKeys row keys rec s))"
  by (induction keys arbitrary: s rec) (simp_all add: case_prod_beta steady_js_get)

lemma steady_serializeRow: "steady s0 s \<Longrightarrow> steady s0 (snd (serializeRow row s))"
  by (simp add: serializeRow_def case_prod_beta steady_serializeKeys steady_js_get)

lemma steady_serializeAll: "steady s0 s \<Longrightarrow> steady s0 (snd (serializeAll ops s))"
  by (induction ops arbitrary: s) (simp_all add: case_prod_beta steady_serializeRow)

lemma steady_readIds: "steady s0 s \<Longrightarrow> steady s0 (snd (readIds ops s))"
  by (induction ops arbitrary: s) (simp_all add: case_prod_beta steady_js_get)

lemma heap_enqueue [simp]: "heap (enqueue k row ty s) = heap s"
  by (simp add: enqueue_def Let_def)

lemma rows_enqueue [simp]: "rows (enqueue k row ty s) = rows s"
  by (simp add: enqueue_def Let_def)

lemma heap_Reflect_set [simp]: "heap (Reflect_set t p v s) = (heap s)(t := setp (heap s t) p v)"
  by (simp add: Reflect_set_def)

lemma heap_Reflect_deleteProperty [simp]:
  "heap (Reflect_deleteProperty t p s) = (heap s)(t := delp (heap s t) p)"
  by (simp add: Reflect_deleteProperty_def)

lemma idx_stable_refl [simp]: "idx_stable s s"
  by (simp add: idx_stable_def)

lemma idx_stable_enqueue: "idx_stable s0 s \<Longrightarrow> idx_stable s0 (enqueue k row ty s)"
  by (simp add: idx_stable_def)

lemma idx_stable_onChange: "idx_stable s0 s \<Longrightarrow> idx_stable s0 (onChange r s)"
  by (auto simp: idx_stable_def onChange_def Let_def)

lemma idx_stable_createDeepProxy: "idx_stable s0 s \<Longrightarrow> idx_stable s0 (snd (createDeepProxy v r s))"
  by (cases "(v, r, s)" rule: createDeepProxy.cases)
     (auto simp: idx_stable_def onChange_def Let_def)

lemma idx_kept_onChange:
  "getp (heap s a) ''_idx'' \<noteq> Undefined \<Longrightarrow>
   getp (heap (onChange r s) a) ''_idx'' = getp (heap s a) ''_idx''"
  by (auto simp: onChange_def Let_def)

lemma idx_kept_createDeepProxy:
  "getp (heap s a) ''_idx'' \<noteq> Undefined \<Longrightarrow>
   getp (heap (snd (createDeepProxy v r s)) a) ''_idx'' = getp (heap s a) ''_idx''"
  by (cases "(v, r, s)" rule: createDeepProxy.cases) (auto simp: onChange_def Let_def)

lemma idx_stable_Reflect_set:
  "idx_stable s0 s \<Longrightarrow> (p = ''_idx'' \<longrightarrow> (\<forall>i. getp (heap s t) ''_idx'' \<noteq> Num i)) \<Longrightarrow>
   idx_stable s0 (Reflect_set t p v s)"
  by (auto simp: idx_stable_def)

lemma idx_stable_Reflect_deleteProperty:
  "idx_stable s0 s \<Longrightarrow> p \<noteq> ''_idx'' \<Longrightarrow> idx_stable s0 (Reflect_deleteProperty t p s)"
  by (auto simp: idx_stable_def)

lemma idx_stable_get_trap: "idx_stable s0 s \<Longrightarrow> idx_stable s0 (snd (get_trap t r p s))"
proof (cases "getp (heap s t) p")
  case (Obj x)
  assume st: "idx_stable s0 s"
  have "p = ''_idx'' \<longrightarrow> (\<forall>i. getp (heap (snd (createDeepProxy (Obj x) r s)) t) ''_idx'' \<noteq> Num i)"
    using Obj idx_kept_createDeepProxy [of s t "Obj x" r] by auto
  then show ?thesis
    using Obj st by (simp add: get_trap_def Let_def case_prod_beta idx_stable_Reflect_set idx_stable_createDeepProxy)
qed (simp_all add: get_trap_def)

lemma idx_stable_set_trap: "idx_stable s0 s \<Longrightarrow> p \<noteq> ''_idx'' \<Longrightarrow> idx_stable s0 (set_trap t r p v s)"
  by (simp add: set_trap_def Let_def idx_stable_onChange idx_stable_Reflect_set)

lemma idx_stable_deleteProperty_trap:
  "idx_stable s0 s \<Longrightarrow> p \<noteq> ''_idx'' \<Longrightarrow> idx_stable s0 (deleteProperty_trap t r p s)"
  by (simp add: deleteProperty_trap_def idx_stable_onChange idx_stable_Reflect_deleteProperty)

lemma idx_stable_js_get: "idx_stable s0 s \<Longrightarrow> idx_stable s0 (snd (js_get x p s))"
  by (cases x) (simp_all add: idx_stable_get_trap)

lemma idx_stable_js_set: "idx_stable s0 s \<Longrightarrow> p \<noteq> ''_idx'' \<Longrightarrow> idx_stable s0 (js_set x p v s)"
  by (cases x) (simp_all add: idx_stable_set_trap idx_stable_Reflect_set)

lemma idx_stable_js_delete: "idx_stable s0 s \<Longrightarrow> p \<noteq> ''_idx'' \<Longrightarrow> idx_stable s0 (js_delete x p s)"
  by (cases x) (simp_all add: idx_stable_deleteProperty_trap idx_stable_Reflect_deleteProperty)

lemma fst_createDeepProxy_Obj: "\<exists>y. fst (createDeepProxy (Obj x) r s) = Obj y"
  by (cases "(Obj x, r, s)" rule: createDeepProxy.cases) auto


lemma js_get_Undefined:
  "fst (js_get x p s) = Undefined \<Longrightarrow> getp (heap s (addr x)) p = Undefined \<and> snd (js_get x p s) = s"
proof (cases x)
  case (Raw a)
  assume "fst (js_get x p s) = Undefined"
  then show ?thesis using Raw by simp
next
  case (Prx t r)
  assume u: "fst (js_get x p s) = Undefined"
  show ?thesis
  proof (cases "getp (heap s t) p")
    case (Obj y)
    then show ?thesis
      using u Prx fst_createDeepProxy_Obj [of y r s]
      by (auto simp: get_trap_def Let_def case_prod_beta)
  qed (use u Prx in \<open>simp_all add: get_trap_def\<close>)
qed

lemma idx_stable_js_set_idx:
  "idx_stable s0 s \<Longrightarrow> \<forall>i. getp (heap s (addr x)) ''_idx'' \<noteq> Num i \<Longrightarrow>
   idx_stable s0 (js_set x ''_idx'' v s)"
  by (cases x) (auto simp: set_trap_def Let_def intro!: idx_stable_onChange idx_stable_Reflect_set)

lemma idx_stable_queueOperation: "idx_stable s0 s \<Longrightarrow> idx_stable s0 (queueOperation row ty s)"
proof -
  assume st: "idx_stable s0 s"
  let ?s1 = "snd (js_get row ''_idx'' s)"
  have s1: "idx_stable s0 ?s1" using st by (rule idx_stable_js_get)
  have "idx_stable s0 (js_set row ''_idx'' v ?s1)" if "fst (js_get row ''_idx'' s) = Undefined" for v
    using js_get_Undefined [OF that] st by (simp add: idx_stable_js_set_idx)
  then show ?thesis
    using s1 by (simp add: queueOperation_def Let_def case_prod_beta idx_stable_enqueue idx_stable_js_get)
qed

lemma idx_stable_heap:
  "idx_stable s0 s \<Longrightarrow> \<forall>a. getp (h a) ''_idx'' = getp (heap s a) ''_idx'' \<Longrightarrow> idx_stable s0 (s\<lparr>heap := h\<rparr>)"
  by (simp add: idx_stable_def)

lemma idx_stable_wrapRow: "idx_stable s0 s \<Longrightarrow> idx_stable s0 (snd (wrapRow row s))"
  by (auto simp: wrapRow_def Let_def case_prod_beta idx_stable_heap idx_stable_createDeepProxy split: val.splits)

lemma idx_stable_wrapRows: "idx_stable s0 s \<Longrightarrow> idx_stable s0 (snd (wrapRows data s))"
  by (induction data arbitrary: s) (simp_all add: case_prod_beta idx_stable_wrapRow)

lemma idx_stable_serializeKeys: "idx_stable s0 s \<Longrightarrow> idx_stable s0 (snd (serializeKeys row keys rec s))"
  by (induction keys arbitrary: s rec) (simp_all add: case_prod_beta idx_stable_js_get)

lemma idx_stable_serializeRow: "idx_stable s0 s \<Longrightarrow> idx_stable s0 (snd (serializeRow row s))"
  by (simp add: serializeRow_def case_prod_beta idx_stable_serializeKeys idx_stable_js_get)

lemma idx_stable_serializeAll: "idx_stable s0 s \<Longrightarrow> idx_stable s0 (snd (serializeAll ops s))"
  by (induction ops arbitrary: s) (simp_all add: case_prod_beta idx_stable_serializeRow)

lemma idx_stable_readIds: "idx_stable s0 s \<Longrightarrow> idx_stable s0 (snd (readIds ops s))"
  by (induction ops arbitrary: s) (simp_all add: case_prod_beta idx_stable_js_get)


section \<open>The queue and the wrapping of fresh rows\<close>

lemma operationQueue_enqueue [simp]:
  "operationQueue (enqueue k row ty s) = AList.update k (row, ty) (operationQueue s)"
  by (simp add: enqueue_def Let_def)

lemma queueTimer_enqueue [simp]:
  "queueTimer (enqueue k row ty s) = (case queueTimer s of None \<Rightarrow> Some (clock s + 500) | Some d \<Rightarrow> Some d)"
  by (simp add: enqueue_def Let_def split: option.splits)

lemma timeouts_enqueue [simp]:
  "timeouts (enqueue k row ty s) = (if queueTimer s = None then timeouts s @ [clock s + 500] else timeouts s)"
  by (simp add: enqueue_def Let_def)

lemma gateway_enqueue [simp]: "gateway (enqueue k row ty s) = gateway s"
  by (simp add: enqueue_def Let_def)

lemma suspended_enqueue [simp]: "suspended (enqueue k row ty s) = suspended s"
  by (simp add: enqueue_def Let_def)

lemma clock_enqueue [simp]: "clock (enqueue k row ty s) = clock s"
  by (simp add: enqueue_def Let_def)

text \<open>The callback of a row is \<open>_queueOperation\<close> on the unwrapped row with type \<open>save\<close>.\<close>

lemma queueOperation_Raw_Save: "queueOperation (Raw r) Save s = onChange r s"
  by (simp add: queueOperation_def onChange_def Let_def)

lemma onChange_queued:
  "map_of (operationQueue (onChange r s)) (getp (heap (onChange r s) r) ''_idx'') = Some (Raw r, Save)"
  by (simp add: onChange_def Let_def update_conv')

lemma onChange_armed: "queueTimer (onChange r s) \<noteq> None"
  by (simp add: onChange_def Let_def split: option.splits)

lemma onChange_nonempty: "operationQueue (onChange r s) \<noteq> []"
  using onChange_queued [of r s] by auto

lemma operationQueue_Reflect_set [simp]: "operationQueue (Reflect_set t p v s) = operationQueue s"
  by (simp add: Reflect_set_def)


lemma marker_setp [simp]: "marker (setp ob p v) = marker ob"
  by (simp add: setp_def)

lemma marker_tag [simp]: "marker (tag ob) = marker ob"
  by (simp add: tag_def)

lemma getp_tag_idx [simp]: "getp (tag ob) ''_idx'' = getp ob ''_idx''"
  by simp

lemma wrapRow_fresh:
  assumes "\<not> marker (heap s a)" and "getp (heap s a) ''_idx'' \<noteq> Undefined"
  shows "fst (wrapRow (Raw a) s) = Prx a a"
    and "operationQueue (snd (wrapRow (Raw a) s)) =
           AList.update (getp (heap s a) ''_idx'') (Raw a, Save) (operationQueue s)"
    and "heap (snd (wrapRow (Raw a) s)) = (heap s)(a := tag ((heap s a)\<lparr>marker := True\<rparr>))"
    and "queueTimer (snd (wrapRow (Raw a) s)) \<noteq> None"
  using assms by (simp_all add: wrapRow_def onChange_def Let_def split: option.splits)

lemma wrapRows_fresh:
  assumes "distinct as" and "\<forall>a \<in> set as. \<not> marker (heap s a) \<and> getp (heap s a) ''_idx'' \<noteq> Undefined"
  shows "fst (wrapRows (map Raw as) s) = map (\<lambda>a. Prx a a) as
       \<and> operationQueue (snd (wrapRows (map Raw as) s)) =
           foldl (\<lambda>q a. AList.update (getp (heap s a) ''_idx'') (Raw a, Save) q) (operationQueue s) as
       \<and> (\<forall>b. getp (heap (snd (wrapRows (map Raw as) s)) b) ''_idx'' = getp (heap s b) ''_idx'')
       \<and> (as \<noteq> [] \<longrightarrow> queueTimer (snd (wrapRows (map Raw as) s)) \<noteq> None)"
  using assms
proof (induction as arbitrary: s)
  case Nil
  then show ?case by simp
next
  case (Cons a as)
  let ?s1 = "snd (wrapRow (Raw a) s)"
  have a: "\<not> marker (heap s a)" "getp (heap s a) ''_idx'' \<noteq> Undefined"
    using Cons.prems by simp_all
  note w = wrapRow_fresh [OF a]
  have pre: "\<forall>b \<in> set as. \<not> marker (heap ?s1 b) \<and> getp (heap ?s1 b) ''_idx'' \<noteq> Undefined"
    using Cons.prems by (auto simp: w(3))
  have d: "distinct as" using Cons.prems by simp
  note ih = Cons.IH [OF d pre]
  have same: "getp (heap ?s1 b) ''_idx'' = getp (heap s b) ''_idx''" for b
    by (simp add: w(3))
  have armed: "queueTimer (snd (wrapRows (map Raw as) ?s1)) \<noteq> None"
    using steady_wrapRows [of ?s1 ?s1 "map Raw as"] w(4)
    by (auto simp: steady_def arm_def)
  show ?case
    using ih w(1) w(2) armed by (simp add: case_prod_beta same)
qed


lemma assignIdx_frame [simp]:
  "operationQueue (assignIdx data i s) = operationQueue s"
  "queueTimer (assignIdx data i s) = queueTimer s"
  "timeouts (assignIdx data i s) = timeouts s"
  "clock (assignIdx data i s) = clock s"
  "rows (assignIdx data i s) = rows s"
  "gateway (assignIdx data i s) = gateway s"
  "suspended (assignIdx data i s) = suspended s"
  "marker (heap (assignIdx data i s) a) = marker (heap s a)"
  by (induction data arbitrary: i s) (simp_all add: Reflect_set_def)

lemma assignIdx_kept:
  "getp (heap s a) ''_idx'' \<noteq> Undefined \<Longrightarrow>
   getp (heap (assignIdx data i s) a) ''_idx'' = getp (heap s a) ''_idx''"
  by (induction data arbitrary: i s) auto

lemma assignIdx_defined:
  "a \<in> set data \<Longrightarrow> getp (heap (assignIdx data i s) a) ''_idx'' \<noteq> Undefined"
proof (induction data arbitrary: i s)
  case Nil
  then show ?case by simp
next
  case (Cons b data)
  show ?case
  proof (cases "a = b")
    case True
    then show ?thesis by (simp add: assignIdx_kept)
  next
    case False
    then show ?thesis using Cons by simp
  qed
qed

lemma foldl_update_hit:
  "a \<in> set as \<Longrightarrow>
   \<exists>b \<in> set as. f b = f a \<and>
     map_of (foldl (\<lambda>q a. AList.update (f a) (Raw a, Save) q) q0 as) (f a) = Some (Raw b, Save)"
proof (induction as rule: rev_induct)
  case Nil
  then show ?case by simp
next
  case (snoc x xs)
  show ?case
  proof (cases "f x = f a")
    case True
    then show ?thesis by (auto simp: update_conv')
  next
    case False
    then have "a \<in> set xs" using snoc.prems by auto
    from snoc.IH [OF this] False show ?thesis by (auto simp: update_conv')
  qed
qed

lemma foldl_update_hit_inj:
  "a \<in> set as \<Longrightarrow> inj_on f (set as) \<Longrightarrow>
   map_of (foldl (\<lambda>q a. AList.update (f a) (Raw a, Save) q) q0 as) (f a) = Some (Raw a, Save)"
  using foldl_update_hit [of a as f q0] by (auto dest: inj_onD)

lemma init_fresh:
  assumes "distinct data" and "\<forall>a \<in> set data. \<not> marker (h a)"
  shows "rows (init data (new_mirror h)) = map (\<lambda>a. Prx a a) data"
    and "operationQueue (init data (new_mirror h)) =
           foldl (\<lambda>q a. AList.update (getp (heap (init data (new_mirror h)) a) ''_idx'') (Raw a, Save) q) [] data"
    and "data \<noteq> [] \<Longrightarrow> queueTimer (init data (new_mirror h)) \<noteq> None"
    and "getp (heap (init data (new_mirror h)) a) ''_idx'' = getp (heap (assignIdx data 0 (new_mirror h)) a) ''_idx''"
proof -
  let ?s1 = "assignIdx data 0 (new_mirror h)"
  have pre: "\<forall>a \<in> set data. \<not> marker (heap ?s1 a) \<and> getp (heap ?s1 a) ''_idx'' \<noteq> Undefined"
    using assms(2) by (simp add: assignIdx_defined new_mirror_def)
  note w = wrapRows_fresh [OF assms(1) pre]
  have q0: "operationQueue ?s1 = []" by (simp add: new_mirror_def)
  show "rows (init data (new_mirror h)) = map (\<lambda>a. Prx a a) data"
    using w by (simp add: init_def case_prod_beta)
  show h: "getp (heap (init data (new_mirror h)) a) ''_idx'' = getp (heap ?s1 a) ''_idx''"
    using w by (simp add: init_def case_prod_beta)
  show "operationQueue (init data (new_mirror h)) =
           foldl (\<lambda>q a. AList.update (getp (heap (init data (new_mirror h)) a) ''_idx'') (Raw a, Save) q) [] data"
    using w q0 by (simp add: init_def case_prod_beta)
  show "data \<noteq> [] \<Longrightarrow> queueTimer (init data (new_mirror h)) \<noteq> None"
    using w by (simp add: init_def case_prod_beta)
qed

lemma init_timer:
  "arm (new_mirror h) ((init data (new_mirror h))\<lparr>rows := []\<rparr>)"
  using steady_wrapRows [of "assignIdx data 0 (new_mirror h)" "assignIdx data 0 (new_mirror h)" "map Raw data"]
  by (auto simp: init_def Let_def case_prod_beta steady_def arm_def)

section \<open>The timer and the queue along a run\<close>

lemma steady_quiet: "steady s s' \<Longrightarrow> quiet s s'"
  by (simp add: steady_def quiet_def)

lemma quiet_refl [simp]: "quiet s s"
  by (simp add: quiet_def arm_def)

lemma quiet_steady: "quiet s0 s \<Longrightarrow> steady s s' \<Longrightarrow> quiet s0 s'"
  by (auto simp: quiet_def steady_def arm_def)

lemma quiet_rows: "quiet s0 s \<Longrightarrow> quiet s0 (s\<lparr>rows := rs\<rparr>)"
  by (simp add: quiet_def arm_def)

lemma queue_ok_quiet: "queue_ok s \<Longrightarrow> quiet s s' \<Longrightarrow> queue_ok s'"
  by (auto simp: queue_ok_def timer_ok_def quiet_def arm_def split: option.splits)

lemma queue_ok_steady: "queue_ok s \<Longrightarrow> steady s s' \<Longrightarrow> queue_ok s'"
  by (blast intro: queue_ok_quiet steady_quiet)

lemma steady_enqueueAll: "steady s0 s \<Longrightarrow> steady s0 (enqueueAll ty xs s)"
  by (simp add: enqueueAll_def steady_foldl_queue)

lemma quiet_push: "quiet s (snd (push row s))"
proof -
  let ?s1 = "js_set row ''_idx'' (Num (int (length (rows s)))) s"
  let ?s2 = "snd (wrapRow row ?s1)"
  let ?s3 = "?s2\<lparr>rows := rows ?s2 @ [fst (wrapRow row ?s1)]\<rparr>"
  have "steady s ?s2" by (simp add: steady_wrapRow steady_js_set)
  then have "quiet s ?s3" by (simp add: steady_quiet quiet_rows)
  then have "quiet s (queueOperation (fst (wrapRow row ?s1)) Save ?s3)"
    by (rule quiet_steady) (simp add: steady_queueOperation)
  then show ?thesis by (simp add: push_def Let_def case_prod_beta)
qed

lemma quiet_splice: "quiet s (snd (splice start deleteCount items s))"
proof -
  let ?w = "wrapItems start items s"
  let ?sp = "spliceRows start deleteCount (fst ?w) (snd ?w)"
  let ?s4 = "enqueueAll Save items (enqueueAll Delete (fst ?sp) (snd ?sp))"
  have "steady s (snd ?w)" by (simp add: steady_wrapItems)
  then have "quiet s (snd ?sp)" by (simp add: spliceRows_def Let_def steady_quiet quiet_rows)
  then have "quiet s (reindex (rows ?s4) 0 ?s4)"
    by (rule quiet_steady) (simp add: steady_reindex steady_enqueueAll)
  then show ?thesis by (simp add: splice_def spliceRemoved_def Let_def case_prod_beta)
qed

lemma quiet_mutation: "mutation e \<Longrightarrow> quiet s (step s e)"
  by (cases e) (simp_all add: quiet_push quiet_splice steady_quiet steady_js_get steady_js_set steady_js_delete)

lemma queue_ok_gateway [simp]: "queue_ok (s\<lparr>gateway := g\<rparr>) = queue_ok s"
  by (simp add: queue_ok_def timer_ok_def)

lemma queue_ok_suspended [simp]: "queue_ok (s\<lparr>suspended := g\<rparr>) = queue_ok s"
  by (simp add: queue_ok_def timer_ok_def)

lemma queue_ok_readIds: "queue_ok s \<Longrightarrow> queue_ok (snd (readIds ds s))"
  using queue_ok_steady [OF _ steady_readIds [OF steady_refl]] .

lemma queue_ok_serializeAll: "queue_ok s \<Longrightarrow> queue_ok (snd (serializeAll ops s))"
  using queue_ok_steady [OF _ steady_serializeAll [OF steady_refl]] .

lemma queue_ok_issueDelete: "queue_ok s \<Longrightarrow> queue_ok (issueDelete ds s)"
  by (simp add: issueDelete_def case_prod_beta queue_ok_readIds)

lemma queue_ok_flush: "queue_ok s \<Longrightarrow> queue_ok (flush ops s)"
  by (simp add: flush_def Let_def case_prod_beta queue_ok_issueDelete queue_ok_serializeAll)

lemma queue_ok_timerCallback: "timeouts s = [] \<Longrightarrow> queue_ok (timerCallback s)"
proof -
  assume "timeouts s = []"
  then have "queue_ok (s\<lparr>operationQueue := [], queueTimer := None\<rparr>)"
    by (simp add: queue_ok_def timer_ok_def)
  then show ?thesis
    by (simp add: timerCallback_def snapshot_def queue_ok_flush)
qed

lemma queue_ok_fire: "queue_ok s \<Longrightarrow> queue_ok (fire s)"
proof (cases "timeouts s")
  case Nil
  assume "queue_ok s"
  then show ?thesis using Nil by (simp add: fire_def)
next
  case (Cons d ds)
  assume q: "queue_ok s"
  have "queue_ok (timerCallback (s\<lparr>timeouts := ds\<rparr>))"
    using q Cons by (intro queue_ok_timerCallback) (simp add: queue_ok_def timer_ok_def split: option.splits)
  then show ?thesis using q Cons by (simp add: fire_def)
qed

lemma queue_ok_step: "queue_ok s \<Longrightarrow> queue_ok (step s e)"
proof (cases "mutation e")
  case True
  assume "queue_ok s"
  then show ?thesis using quiet_mutation [OF True] by (rule queue_ok_quiet)
next
  case False
  assume q: "queue_ok s"
  from False show ?thesis
  proof (cases e)
    case (Tick n)
    then show ?thesis using q by (simp add: tick_def queue_ok_def timer_ok_def)
  next
    case Fire
    then show ?thesis using q by (simp add: queue_ok_fire)
  next
    case (InsertResolved k)
    then show ?thesis using q by (simp add: insertResolved_def queue_ok_issueDelete)
  next
    case (InsertRejected k)
    then show ?thesis using q by (simp add: insertRejected_def)
  qed simp_all
qed

lemma queue_ok_run: "queue_ok s \<Longrightarrow> queue_ok (run es s)"
  unfolding run_def by (induction es arbitrary: s) (simp_all add: queue_ok_step)

lemma queue_ok_init: "queue_ok (init data (new_mirror h))"
proof -
  let ?s1 = "assignIdx data 0 (new_mirror h)"
  have "queue_ok ?s1" by (simp add: queue_ok_def timer_ok_def new_mirror_def)
  then have "queue_ok (snd (wrapRows (map Raw data) ?s1))"
    by (rule queue_ok_steady) (simp add: steady_wrapRows)
  then show ?thesis by (simp add: init_def Let_def case_prod_beta queue_ok_def timer_ok_def)
qed

section \<open>The claims about the tracker\<close>

text \<open>
  C9. A write through a tracked value always performs the write on the target; the
  callback runs after it, on the state that already holds the new value, exactly when
  the old value and the new one differ as values: scalars by value, references by
  identity. So from an empty queue the write leaves something queued if and only if the
  value changed, and two different references to objects with equal contents count as a
  change.
\<close>

theorem C9_set_trap:
  "getp (heap (Reflect_set t prop v s) t) prop = v
   \<and> (getp (heap s t) prop = v \<longrightarrow> js_set (Prx t r) prop v s = Reflect_set t prop v s)
   \<and> (getp (heap s t) prop \<noteq> v \<longrightarrow> js_set (Prx t r) prop v s = onChange r (Reflect_set t prop v s))
   \<and> (operationQueue s = [] \<longrightarrow>
        (operationQueue (js_set (Prx t r) prop v s) \<noteq> [] \<longleftrightarrow> getp (heap s t) prop \<noteq> v))
   \<and> (\<forall>x y. getp (heap s t) prop = Obj x \<and> v = Obj y \<and> x \<noteq> y \<and> heap s (addr x) = heap s (addr y) \<longrightarrow>
        js_set (Prx t r) prop v s = onChange r (Reflect_set t prop v s))"
  by (auto simp: set_trap_def Let_def onChange_nonempty)

theorem C9_set_trap_witness:
  "getp (heap loaded 0) ''name'' = Str ''a''
   \<and> js_set (Prx 0 0) ''name'' (Str ''a'') loaded = Reflect_set 0 ''name'' (Str ''a'') loaded
   \<and> js_set (Prx 0 0) ''name'' (Str ''a2'') loaded = onChange 0 (Reflect_set 0 ''name'' (Str ''a2'') loaded)"
proof -
  have old: "getp (heap loaded 0) ''name'' = Str ''a''"
    by code_simp
  show ?thesis
    using old C9_set_trap [of 0 "''name''" "Str ''a''" loaded 0]
      C9_set_trap [of 0 "''name''" "Str ''a2''" loaded 0]
    by simp
qed


text \<open>
  C3. Wrapping an unmarked object calls the callback: the marker assignment goes through
  the proxy's set trap. So the callback's row has a save queued and the timer is armed.
  Hence \<open>init\<close> over fresh rows leaves, under the identity of every loaded row, a save
  of a loaded row with that identity (of that very row when the identities are
  different), and arms the timer for 500 ms after the load if there is any row. And a
  read, through a proxy, of a property that holds an unwrapped composite returns its new
  proxy, stores it in place of the composite and queues a save for the proxy's row.
\<close>

theorem C3_wrapping_queues_a_save:
  "(\<not> marker (heap s a) \<longrightarrow>
      createDeepProxy (Obj (Raw a)) r s =
        (Obj (Prx a r), onChange r (s\<lparr>heap := (heap s)(a := (heap s a)\<lparr>marker := True\<rparr>)\<rparr>))
      \<and> (\<exists>k. map_of (operationQueue (snd (createDeepProxy (Obj (Raw a)) r s))) k = Some (Raw r, Save))
      \<and> queueTimer (snd (createDeepProxy (Obj (Raw a)) r s)) \<noteq> None)
   \<and> (distinct data \<and> (\<forall>a \<in> set data. \<not> marker (h a)) \<longrightarrow>
      (\<forall>a \<in> set data. \<exists>b \<in> set data.
          map_of (operationQueue (init data (new_mirror h)))
            (getp (heap (init data (new_mirror h)) a) ''_idx'') = Some (Raw b, Save))
      \<and> (inj_on (\<lambda>a. getp (heap (init data (new_mirror h)) a) ''_idx'') (set data) \<longrightarrow>
           (\<forall>a \<in> set data.
              map_of (operationQueue (init data (new_mirror h)))
                (getp (heap (init data (new_mirror h)) a) ''_idx'') = Some (Raw a, Save)))
      \<and> (data \<noteq> [] \<longrightarrow> queueTimer (init data (new_mirror h)) = Some 500
                         \<and> timeouts (init data (new_mirror h)) = [500]))
   \<and> (getp (heap s t) name = Obj (Raw a) \<and> \<not> marker (heap s a) \<longrightarrow>
      fst (js_get (Prx t r) name s) = Obj (Prx a r)
      \<and> getp (heap (snd (js_get (Prx t r) name s)) t) name = Obj (Prx a r)
      \<and> (\<exists>k. map_of (operationQueue (snd (js_get (Prx t r) name s))) k = Some (Raw r, Save))
      \<and> queueTimer (snd (js_get (Prx t r) name s)) \<noteq> None)"
proof (intro conjI impI)
  assume m: "\<not> marker (heap s a)"
  let ?s1 = "s\<lparr>heap := (heap s)(a := (heap s a)\<lparr>marker := True\<rparr>)\<rparr>"
  show c: "createDeepProxy (Obj (Raw a)) r s = (Obj (Prx a r), onChange r ?s1)"
    using m by simp
  show "\<exists>k. map_of (operationQueue (snd (createDeepProxy (Obj (Raw a)) r s))) k = Some (Raw r, Save)"
    using onChange_queued [of r ?s1] c by auto
  show "queueTimer (snd (createDeepProxy (Obj (Raw a)) r s)) \<noteq> None"
    using onChange_armed [of r ?s1] c by simp
next
  assume a: "distinct data \<and> (\<forall>a \<in> set data. \<not> marker (h a))"
  then have d: "distinct data" and m: "\<forall>a \<in> set data. \<not> marker (h a)" by simp_all
  note i = init_fresh [OF d m]
  show "\<forall>a \<in> set data. \<exists>b \<in> set data.
          map_of (operationQueue (init data (new_mirror h)))
            (getp (heap (init data (new_mirror h)) a) ''_idx'') = Some (Raw b, Save)"
  proof
    fix a assume "a \<in> set data"
    from foldl_update_hit [OF this, of "\<lambda>a. getp (heap (init data (new_mirror h)) a) ''_idx''" "[]"]
    show "\<exists>b \<in> set data.
          map_of (operationQueue (init data (new_mirror h)))
            (getp (heap (init data (new_mirror h)) a) ''_idx'') = Some (Raw b, Save)"
      by (subst i(2)) auto
  qed
  show "\<forall>a \<in> set data.
              map_of (operationQueue (init data (new_mirror h)))
                (getp (heap (init data (new_mirror h)) a) ''_idx'') = Some (Raw a, Save)"
    if inj: "inj_on (\<lambda>a. getp (heap (init data (new_mirror h)) a) ''_idx'') (set data)"
  proof
    fix a assume "a \<in> set data"
    from foldl_update_hit_inj [OF this inj, of "[]"]
    show "map_of (operationQueue (init data (new_mirror h)))
                (getp (heap (init data (new_mirror h)) a) ''_idx'') = Some (Raw a, Save)"
      by (subst i(2)) auto
  qed
  show "queueTimer (init data (new_mirror h)) = Some 500" if "data \<noteq> []"
    using i(3) [OF that] init_timer [of h data] by (auto simp: arm_def new_mirror_def)
  show "timeouts (init data (new_mirror h)) = [500]" if "data \<noteq> []"
    using i(3) [OF that] init_timer [of h data] by (auto simp: arm_def new_mirror_def)
next
  assume g: "getp (heap s t) name = Obj (Raw a) \<and> \<not> marker (heap s a)"
  let ?s1 = "s\<lparr>heap := (heap s)(a := (heap s a)\<lparr>marker := True\<rparr>)\<rparr>"
  have j: "js_get (Prx t r) name s = (Obj (Prx a r), Reflect_set t name (Obj (Prx a r)) (onChange r ?s1))"
    using g by (simp add: get_trap_def)
  show "fst (js_get (Prx t r) name s) = Obj (Prx a r)"
    using j by simp
  show "getp (heap (snd (js_get (Prx t r) name s)) t) name = Obj (Prx a r)"
    using j by simp
  show "\<exists>k. map_of (operationQueue (snd (js_get (Prx t r) name s))) k = Some (Raw r, Save)"
    using onChange_queued [of r ?s1] j by auto
  show "queueTimer (snd (js_get (Prx t r) name s)) \<noteq> None"
    using onChange_armed [of r ?s1] j by (simp add: Reflect_set_def)
qed


theorem C3_wrapping_queues_a_save_witness:
  "\<not> marker (heap (new_mirror two_rows) 4)
   \<and> createDeepProxy (Obj (Raw 4)) 3 (new_mirror two_rows) =
       (Obj (Prx 4 3),
        onChange 3 ((new_mirror two_rows)\<lparr>heap :=
          (heap (new_mirror two_rows))(4 := (heap (new_mirror two_rows) 4)\<lparr>marker := True\<rparr>)\<rparr>))
   \<and> queueTimer (init [0, 1] (new_mirror two_rows)) = Some 500
   \<and> timeouts (init [0, 1] (new_mirror two_rows)) = [500]
   \<and> getp (heap (new_mirror two_rows) 3) ''extra'' = Obj (Raw 4)
   \<and> fst (js_get (Prx 3 3) ''extra'' (new_mirror two_rows)) = Obj (Prx 4 3)"
proof -
  have m: "\<not> marker (heap (new_mirror two_rows) 4)"
    by (simp add: new_mirror_def two_rows_def plain_def)
  have f: "distinct [0, 1::nat] \<and> (\<forall>a \<in> set [0, 1::nat]. \<not> marker (two_rows a))"
    by (simp add: two_rows_def plain_def)
  have g: "getp (heap (new_mirror two_rows) 3) ''extra'' = Obj (Raw 4)"
    by (simp add: new_mirror_def two_rows_def plain_def getp_def)
  have ne: "[0, 1::nat] \<noteq> []" by simp
  from C3_wrapping_queues_a_save [where s = "new_mirror two_rows" and a = 4 and r = 3
      and data = "[0, 1]" and h = two_rows and t = 3 and name = "''extra''"]
  show ?thesis using m f g ne by blast
qed

section \<open>The claims about the scheduler\<close>

lemma queueOperation_armed: "queueTimer (queueOperation row ty s) \<noteq> None"
  by (simp add: queueOperation_def Let_def case_prod_beta split: option.splits)







lemma rows_flush: "rows (flush ops s) = rows s"
  using steady_serializeAll [OF steady_refl, of s "filter (\<lambda>op. snd op = Save) ops"]
    steady_readIds [OF steady_refl, of s "filter (\<lambda>op. snd op = Delete) ops"]
  by (simp add: flush_def issueDelete_def Let_def case_prod_beta steady_def)

lemma rows_fire: "rows (fire s) = rows s"
  by (simp add: fire_def timerCallback_def snapshot_def rows_flush split: list.splits)





text \<open>
  C5. In every state a run reaches from \<open>init\<close>, at most one timeout is pending, and
  one is pending exactly when the timer handle is set. Queueing an operation on an idle
  mirror arms one timer, due 500 ms later; while a timer is pending neither queueing nor
  any call of the caller changes the pending timeout or the handle. A timeout that is not
  due does not run; a due one is removed and its callback runs once.
\<close>

theorem C5_one_timer:
  assumes "s = run es (init data (new_mirror h))"
  shows "length (timeouts s) \<le> 1 \<and> (queueTimer s = None \<longleftrightarrow> timeouts s = [])
    \<and> (queueTimer s = None \<longrightarrow>
          timeouts (queueOperation row ty s) = [clock s + 500]
          \<and> queueTimer (queueOperation row ty s) = Some (clock s + 500))
    \<and> (queueTimer s \<noteq> None \<longrightarrow>
          timeouts (queueOperation row ty s) = timeouts s
          \<and> queueTimer (queueOperation row ty s) = queueTimer s)
    \<and> (queueTimer s \<noteq> None \<and> mutation e \<longrightarrow>
          timeouts (step s e) = timeouts s \<and> queueTimer (step s e) = queueTimer s)
    \<and> (timeouts s = [] \<longrightarrow> fire s = s)
    \<and> (timeouts s = [d] \<and> clock s < d \<longrightarrow> fire s = s)
    \<and> (timeouts s = [d] \<and> d \<le> clock s \<longrightarrow> fire s = timerCallback (s\<lparr>timeouts := []\<rparr>))"
proof -
  have ok: "queue_ok s"
    unfolding assms by (intro queue_ok_run queue_ok_init)
  then have t: "timeouts s = (case queueTimer s of None \<Rightarrow> [] | Some d \<Rightarrow> [d])"
    by (simp add: queue_ok_def timer_ok_def)
  have q: "arm s (queueOperation row ty s)"
    using steady_queueOperation [OF steady_refl, of s row ty] by (simp add: steady_def)
  have m: "arm s (step s e)" if "mutation e"
    using quiet_mutation [OF that, of s] by (simp add: quiet_def)
  show ?thesis
  proof (intro conjI impI)
    show "length (timeouts s) \<le> 1" using t by (simp split: option.splits)
    show "(queueTimer s = None) = (timeouts s = [])" using t by (simp split: option.splits)
    show "timeouts (queueOperation row ty s) = [clock s + 500]" if "queueTimer s = None"
      using q that t queueOperation_armed [of row ty s] by (auto simp: arm_def)
    show "queueTimer (queueOperation row ty s) = Some (clock s + 500)" if "queueTimer s = None"
      using q that queueOperation_armed [of row ty s] by (auto simp: arm_def)
    show "timeouts (queueOperation row ty s) = timeouts s" if "queueTimer s \<noteq> None"
      using q that by (auto simp: arm_def)
    show "queueTimer (queueOperation row ty s) = queueTimer s" if "queueTimer s \<noteq> None"
      using q that by (auto simp: arm_def)
    show "timeouts (step s e) = timeouts s" if "queueTimer s \<noteq> None \<and> mutation e"
      using m that by (auto simp: arm_def)
    show "queueTimer (step s e) = queueTimer s" if "queueTimer s \<noteq> None \<and> mutation e"
      using m that by (auto simp: arm_def)
    show "fire s = s" if "timeouts s = []"
      using that by (simp add: fire_def)
    show "fire s = s" if "timeouts s = [d] \<and> clock s < d"
      using that by (simp add: fire_def)
    show "fire s = timerCallback (s\<lparr>timeouts := []\<rparr>)" if "timeouts s = [d] \<and> d \<le> clock s"
      using that by (simp add: fire_def)
  qed
qed

theorem C5_one_timer_witness:
  "queueTimer settled = None
   \<and> timeouts (queueOperation (Prx 0 0) Save settled) = [clock settled + 500]
   \<and> queueTimer loaded = Some 500
   \<and> mutation (SetProp (Prx 0 0) ''name'' (Str ''a2''))
   \<and> timeouts (step loaded (SetProp (Prx 0 0) ''name'' (Str ''a2''))) = timeouts loaded
   \<and> length (timeouts loaded) \<le> 1"
proof -
  have a: "settled = run [Tick 500, Fire, InsertResolved 0] (init [0, 1] (new_mirror two_rows))"
    by (simp add: settled_def loaded_def)
  have b: "loaded = run [] (init [0, 1] (new_mirror two_rows))"
    by (simp add: loaded_def run_def)
  have i: "queueTimer settled = None" by code_simp
  have p: "queueTimer loaded = Some 500" by code_simp
  have m: "mutation (SetProp (Prx 0 0) ''name'' (Str ''a2''))" by simp
  from C5_one_timer [OF a, of "Prx 0 0" Save]
    C5_one_timer [OF b, where e = "SetProp (Prx 0 0) ''name'' (Str ''a2'')"] i p m
  show ?thesis by simp
qed






section \<open>Identities and positions\<close>

lemma addr_wrapRow: "addr (fst (wrapRow row s)) = addr row"
proof (cases row)
  case (Raw a)
  then show ?thesis by (simp add: wrapRow_def)
next
  case (Prx a r)
  then show ?thesis by (simp add: wrapRow_def)
qed

lemma addrs_wrapRows: "map addr (fst (wrapRows xs s)) = map addr xs"
  by (induction xs arbitrary: s) (simp_all add: case_prod_beta addr_wrapRow)

lemma addrs_wrapItems: "map addr (fst (wrapItems start xs s)) = map addr xs"
  by (induction xs arbitrary: s start) (simp_all add: Let_def case_prod_beta addr_wrapRow)

lemma rows_wrapItems: "rows (snd (wrapItems start xs s)) = rows s"
  using steady_wrapItems [OF steady_refl, of s start xs] by (simp add: steady_def)

lemma rows_enqueueAll: "rows (enqueueAll ty xs s) = rows s"
  using steady_enqueueAll [OF steady_refl, of s ty xs] by (simp add: steady_def)

lemma rows_reindex: "rows (reindex rs i s) = rows s"
  using steady_reindex [OF steady_refl, of s rs i] by (simp add: steady_def)

lemma rows_js_set: "rows (js_set x p v s) = rows s"
  using steady_js_set [OF steady_refl, of s x p v] by (simp add: steady_def)

lemma rows_js_get: "rows (snd (js_get x p s)) = rows s"
  using steady_js_get [OF steady_refl, of s x p] by (simp add: steady_def)

lemma rows_js_delete: "rows (js_delete x p s) = rows s"
  using steady_js_delete [OF steady_refl, of s x p] by (simp add: steady_def)

lemma rows_wrapRow: "rows (snd (wrapRow x s)) = rows s"
  using steady_wrapRow [OF steady_refl, of s x] by (simp add: steady_def)

lemma rows_queueOperation: "rows (queueOperation x ty s) = rows s"
  using steady_queueOperation [OF steady_refl, of s x ty] by (simp add: steady_def)

lemma js_set_idx_result: "getp (heap (js_set x ''_idx'' (Num n) s) (addr x)) ''_idx'' = Num n"
  by (cases x) (simp_all add: set_trap_def Let_def idx_kept_onChange)

lemma js_set_idx_others:
  "a \<noteq> addr x \<Longrightarrow> getp (heap s a) ''_idx'' = Num i \<Longrightarrow>
   getp (heap (js_set x ''_idx'' v s) a) ''_idx'' = Num i"
  by (cases x) (simp_all add: set_trap_def Let_def idx_kept_onChange)

lemma reindex_others:
  "a \<notin> set (map addr rs) \<Longrightarrow> getp (heap s a) ''_idx'' = Num i \<Longrightarrow>
   getp (heap (reindex rs i0 s) a) ''_idx'' = Num i"
  by (induction rs arbitrary: i0 s) (simp_all add: js_set_idx_others)

lemma reindex_positions:
  "distinct (map addr rs) \<Longrightarrow> j < length rs \<Longrightarrow>
   getp (heap (reindex rs i0 s) (addr (rs ! j))) ''_idx'' = Num (int (i0 + j))"
proof (induction rs arbitrary: i0 s j)
  case Nil
  then show ?case by simp
next
  case (Cons x rs)
  show ?case
  proof (cases j)
    case 0
    have "getp (heap (reindex rs (Suc i0) (js_set x ''_idx'' (Num (int i0)) s)) (addr x)) ''_idx'' = Num (int i0)"
      using Cons.prems(1) by (intro reindex_others) (simp_all add: js_set_idx_result)
    then show ?thesis using 0 by simp
  next
    case (Suc j')
    then show ?thesis using Cons.prems Cons.IH [of j' "Suc i0"] by simp
  qed
qed

lemma indexed_reindex:
  "distinct (map addr (rows s)) \<Longrightarrow> indexed (reindex (rows s) 0 s)"
  using reindex_positions [of "rows s" _ 0 s] by (simp add: indexed_def rows_reindex)

lemma indexed_stable:
  "indexed s \<Longrightarrow> rows s' = rows s \<Longrightarrow> idx_stable s s' \<Longrightarrow> indexed s'"
  by (simp add: indexed_def idx_stable_def)

lemma distinct_take_drop: "distinct xs \<Longrightarrow> p \<le> q \<Longrightarrow> distinct (take p xs @ drop q xs)"
proof -
  assume d: "distinct xs" and pq: "p \<le> q"
  have "set (drop q xs) \<subseteq> set (drop p xs)"
    using pq by (simp add: set_drop_subset_set_drop)
  moreover have "set (take p xs) \<inter> set (drop p xs) = {}"
    using d by (metis append_take_drop_id distinct_append)
  ultimately show ?thesis using d by auto
qed

lemma distinct_splice_nat:
  assumes "distinct (as :: nat list)" and "distinct bs" and "set bs \<inter> set as = {}"
  shows "distinct (take p as @ bs @ drop (p + k) as)"
proof -
  have a: "distinct (take p as @ drop (p + k) as)"
    using assms(1) by (intro distinct_take_drop) simp_all
  have b: "set (take p as) \<subseteq> set as" by (rule set_take_subset)
  have c: "set (drop (p + k) as) \<subseteq> set as" by (rule set_drop_subset)
  show ?thesis
    using a b c assms(2,3) by auto
qed

lemma careful_disjoint:
  "\<forall>i \<in> set items. addr i \<notin> set (map addr rs) \<Longrightarrow> set (map addr items) \<inter> set (map addr rs) = {}"
  by force

lemma indexed_splice:
  assumes "distinct (map addr (rows s))" and "distinct (map addr items)"
    and "\<forall>i \<in> set items. addr i \<notin> set (map addr (rows s))"
  shows "indexed (snd (splice start deleteCount items s))"
proof -
  let ?w = "wrapItems start items s"
  let ?sp = "spliceRows start deleteCount (fst ?w) (snd ?w)"
  let ?s4 = "enqueueAll Save items (enqueueAll Delete (fst ?sp) (snd ?sp))"
  have w: "map addr (fst ?w) = map addr items" by (rule addrs_wrapItems)
  obtain p k where r: "rows (snd ?sp) = take p (rows s) @ fst ?w @ drop (p + k) (rows s)"
    by (simp add: spliceRows_def Let_def rows_wrapItems)
  have "map addr (rows (snd ?sp)) =
          take p (map addr (rows s)) @ map addr items @ drop (p + k) (map addr (rows s))"
    by (simp add: r w take_map drop_map)
  moreover have "distinct (take p (map addr (rows s)) @ map addr items @ drop (p + k) (map addr (rows s)))"
    using assms(1,2) careful_disjoint [OF assms(3)] by (rule distinct_splice_nat)
  ultimately have "distinct (map addr (rows (snd ?sp)))" by simp
  then have "distinct (map addr (rows ?s4))" by (simp add: rows_enqueueAll)
  then have "indexed (reindex (rows ?s4) 0 ?s4)" by (rule indexed_reindex)
  then show ?thesis by (simp add: splice_def spliceRemoved_def Let_def case_prod_beta)
qed

lemma indexed_push:
  assumes "indexed s" and "addr row \<notin> set (map addr (rows s))"
  shows "indexed (snd (push row s))"
proof -
  let ?n = "length (rows s)"
  let ?s1 = "js_set row ''_idx'' (Num (int ?n)) s"
  let ?w = "wrapRow row ?s1"
  let ?s3 = "(snd ?w)\<lparr>rows := rows (snd ?w) @ [fst ?w]\<rparr>"
  let ?s4 = "queueOperation (fst ?w) Save ?s3"
  have "idx_stable ?s1 (snd ?w)" by (rule idx_stable_wrapRow) simp
  then have "idx_stable ?s1 ?s3" by (simp add: idx_stable_def)
  then have st: "idx_stable ?s1 ?s4" by (rule idx_stable_queueOperation)
  have r4: "rows ?s4 = rows s @ [fst ?w]"
    by (simp add: rows_queueOperation rows_wrapRow rows_js_set)
  have new: "getp (heap ?s4 (addr row)) ''_idx'' = Num (int ?n)"
    using st js_set_idx_result [of row "int ?n" s] by (simp add: idx_stable_def)
  have old: "getp (heap ?s4 (addr (rows s ! i))) ''_idx'' = Num (int i)" if "i < ?n" for i
  proof -
    have "addr (rows s ! i) \<noteq> addr row" using assms(2) that by (metis length_map nth_map nth_mem)
    moreover have "getp (heap s (addr (rows s ! i))) ''_idx'' = Num (int i)"
      using assms(1) that by (simp add: indexed_def)
    ultimately have "getp (heap ?s1 (addr (rows s ! i))) ''_idx'' = Num (int i)"
      by (rule js_set_idx_others)
    then show ?thesis using st by (simp add: idx_stable_def)
  qed
  have "indexed ?s4"
    unfolding indexed_def r4
    using assms new old by (auto simp: indexed_def addr_wrapRow nth_append less_Suc_eq)
  then show ?thesis by (simp add: push_def Let_def case_prod_beta)
qed

lemma idx_stable_fields [simp]:
  "idx_stable s0 (s\<lparr>gateway := g\<rparr>) = idx_stable s0 s"
  "idx_stable s0 (s\<lparr>suspended := u\<rparr>) = idx_stable s0 s"
  "idx_stable s0 (s\<lparr>rows := rs\<rparr>) = idx_stable s0 s"
  "idx_stable s0 (s\<lparr>timeouts := ts\<rparr>) = idx_stable s0 s"
  "idx_stable s0 (s\<lparr>operationQueue := q\<rparr>) = idx_stable s0 s"
  "idx_stable s0 (s\<lparr>queueTimer := qt\<rparr>) = idx_stable s0 s"
  "idx_stable s0 (s\<lparr>clock := c\<rparr>) = idx_stable s0 s"
  by (simp_all add: idx_stable_def)

lemma idx_stable_issueDelete: "idx_stable s0 s \<Longrightarrow> idx_stable s0 (issueDelete ds s)"
  by (simp add: issueDelete_def case_prod_beta idx_stable_readIds)

lemma idx_stable_flush: "idx_stable s0 s \<Longrightarrow> idx_stable s0 (flush ops s)"
  by (simp add: flush_def Let_def case_prod_beta idx_stable_issueDelete idx_stable_serializeAll)

lemma idx_stable_fire: "idx_stable s (fire s)"
  by (simp add: fire_def timerCallback_def snapshot_def idx_stable_flush split: list.splits)

lemma idx_stable_insertResolved: "idx_stable s (insertResolved k s)"
  by (simp add: insertResolved_def idx_stable_issueDelete)

lemma rows_issueDelete: "rows (issueDelete ds s) = rows s"
  using steady_readIds [OF steady_refl, of s ds]
  by (simp add: issueDelete_def case_prod_beta steady_def)

lemma assignIdx_positional:
  "distinct data \<Longrightarrow>
   \<forall>j < length data. getp (heap s (data ! j)) ''_idx'' = Undefined
        \<or> getp (heap s (data ! j)) ''_idx'' = Num (int (i + j)) \<Longrightarrow>
   j < length data \<Longrightarrow>
   getp (heap (assignIdx data i s) (data ! j)) ''_idx'' = Num (int (i + j))"
proof (induction data arbitrary: i s j)
  case Nil
  then show ?case by simp
next
  case (Cons a data)
  let ?s1 = "if getp (heap s a) ''_idx'' = Undefined then Reflect_set a ''_idx'' (Num (int i)) s else s"
  show ?case
  proof (cases j)
    case 0
    have "getp (heap ?s1 a) ''_idx'' = Num (int i)"
      using Cons.prems(2) by auto
    then have "getp (heap (assignIdx data (Suc i) ?s1) a) ''_idx'' = Num (int i)"
      by (simp add: assignIdx_kept)
    then show ?thesis using 0 by simp
  next
    case (Suc j')
    have d: "distinct data" and na: "a \<notin> set data" using Cons.prems(1) by simp_all
    have pre: "\<forall>j < length data. getp (heap ?s1 (data ! j)) ''_idx'' = Undefined
        \<or> getp (heap ?s1 (data ! j)) ''_idx'' = Num (int (Suc i + j))"
    proof (intro allI impI)
      fix k assume k: "k < length data"
      then have "data ! k \<noteq> a" using na by auto
      then have "heap ?s1 (data ! k) = heap s (data ! k)" by simp
      then show "getp (heap ?s1 (data ! k)) ''_idx'' = Undefined
        \<or> getp (heap ?s1 (data ! k)) ''_idx'' = Num (int (Suc i + k))"
        using Cons.prems(2) k by force
    qed
    have "j' < length data" using Cons.prems(3) Suc by simp
    from Cons.IH [OF d pre this] show ?thesis using Suc by simp
  qed
qed

lemma indexed_init:
  assumes "distinct data"
    and "\<forall>j < length data. getp (h (data ! j)) ''_idx'' = Undefined
           \<or> getp (h (data ! j)) ''_idx'' = Num (int j)"
  shows "indexed (init data (new_mirror h))"
proof -
  let ?s1 = "assignIdx data 0 (new_mirror h)"
  let ?w = "wrapRows (map Raw data) ?s1"
  have pre: "\<forall>j < length data. getp (heap (new_mirror h) (data ! j)) ''_idx'' = Undefined
        \<or> getp (heap (new_mirror h) (data ! j)) ''_idx'' = Num (int (0 + j))"
    using assms(2) by (simp add: new_mirror_def)
  have a: "getp (heap ?s1 (data ! j)) ''_idx'' = Num (int j)" if "j < length data" for j
    using assignIdx_positional [OF assms(1) pre that] by simp
  have st: "idx_stable ?s1 (snd ?w)" by (rule idx_stable_wrapRows) simp
  have ad: "map addr (fst ?w) = data"
    by (simp add: addrs_wrapRows comp_def)
  have len: "length (fst ?w) = length data"
    using ad by (metis length_map)
  have nth: "addr (fst ?w ! j) = data ! j" if "j < length data" for j
    using ad that len by (metis nth_map)
  have "indexed ((snd ?w)\<lparr>rows := fst ?w\<rparr>)"
    using assms(1) a st by (simp add: indexed_def ad len nth idx_stable_def)
  then show ?thesis by (simp add: init_def Let_def case_prod_beta)
qed

lemma rows_insertResolved: "rows (insertResolved k s) = rows s"
  by (simp add: insertResolved_def rows_issueDelete)

lemma indexed_step: "indexed s \<Longrightarrow> careful s e \<Longrightarrow> indexed (step s e)"
proof (cases e)
  case (Tick n)
  assume "indexed s"
  then have "indexed (tick n s)" by (simp add: tick_def indexed_def)
  then show ?thesis using Tick by simp
next
  case Fire
  assume "indexed s"
  then have "indexed (fire s)" using rows_fire idx_stable_fire by (rule indexed_stable)
  then show ?thesis using Fire by simp
next
  case (InsertResolved k)
  assume "indexed s"
  then have "indexed (insertResolved k s)"
    using rows_insertResolved idx_stable_insertResolved by (rule indexed_stable)
  then show ?thesis using InsertResolved by simp
next
  case (InsertRejected k)
  assume "indexed s"
  then have "indexed (insertRejected k s)" by (simp add: insertRejected_def indexed_def)
  then show ?thesis using InsertRejected by simp
next
  case (GetProp x p)
  assume "indexed s"
  then have "indexed (snd (js_get x p s))"
    using rows_js_get idx_stable_js_get [OF idx_stable_refl] by (rule indexed_stable)
  then show ?thesis using GetProp by simp
next
  case (SetProp x p v)
  assume i: "indexed s" and "careful s e"
  then have "p \<noteq> ''_idx''" using SetProp by simp
  then have "idx_stable s (js_set x p v s)" by (intro idx_stable_js_set idx_stable_refl)
  with i rows_js_set have "indexed (js_set x p v s)" by (rule indexed_stable)
  then show ?thesis using SetProp by simp
next
  case (DeleteProp x p)
  assume i: "indexed s" and "careful s e"
  then have "p \<noteq> ''_idx''" using DeleteProp by simp
  then have "idx_stable s (js_delete x p s)" by (intro idx_stable_js_delete idx_stable_refl)
  with i rows_js_delete have "indexed (js_delete x p s)" by (rule indexed_stable)
  then show ?thesis using DeleteProp by simp
next
  case (Push row)
  assume i: "indexed s" and "careful s e"
  then have "addr row \<notin> set (map addr (rows s))" using Push by simp
  with i have "indexed (snd (push row s))" by (rule indexed_push)
  then show ?thesis using Push by simp
next
  case (Splice start deleteCount items)
  assume i: "indexed s" and c: "careful s e"
  have d: "distinct (map addr (rows s))" using i by (simp add: indexed_def)
  have di: "distinct (map addr items)" using c Splice by simp
  have dj: "\<forall>i \<in> set items. addr i \<notin> set (map addr (rows s))" using c Splice by simp
  from d di dj have "indexed (snd (splice start deleteCount items s))" by (rule indexed_splice)
  then show ?thesis using Splice by simp
qed

lemma indexed_run: "indexed s \<Longrightarrow> careful_run s es \<Longrightarrow> indexed (run es s)"
  unfolding run_def by (induction es arbitrary: s) (simp_all add: indexed_step)

text \<open>
  C8, as stated, fails on the code: \<open>init\<close> assigns an \<open>_idx\<close> only to a row that has
  none. When the load returns the two rows in the order 1, 0, each with its stored
  \<open>_idx\<close>, the row at position 0 has identity 1 at the moment the queue is cleared.
\<close>

theorem C8_stored_idx_kept:
  "rows (run [Tick 500] (init [1, 0] (new_mirror two_rows))) = [Prx 1 1, Prx 0 0]
   \<and> getp (heap (run [Tick 500] (init [1, 0] (new_mirror two_rows))) 1) ''_idx'' = Num 1
   \<and> operationQueue (snd (snapshot (run [Tick 500] (init [1, 0] (new_mirror two_rows))))) = []
   \<and> rows (snd (snapshot (run [Tick 500] (init [1, 0] (new_mirror two_rows))))) ! 0 = Prx 1 1
   \<and> getp (heap (snd (snapshot (run [Tick 500] (init [1, 0] (new_mirror two_rows)))))
        (addr (rows (snd (snapshot (run [Tick 500] (init [1, 0] (new_mirror two_rows))))) ! 0)))
        ''_idx'' = Num 1"
  by code_simp

text \<open>
  C8, amended. If every loaded row either has no \<open>_idx\<close> or has the \<open>_idx\<close> of its
  position in the load, then in every state reached by a caller that leaves \<open>_idx\<close>
  alone and hands \<open>push\<close> and \<open>splice\<close> objects that are not rows already, and so at
  every flush, each row's \<open>_idx\<close> is its position in \<open>rows\<close>.
\<close>

theorem C8_indexed_when_load_is_positional:
  assumes "distinct data"
    and "\<forall>j < length data. getp (h (data ! j)) ''_idx'' = Undefined
           \<or> getp (h (data ! j)) ''_idx'' = Num (int j)"
    and "careful_run (init data (new_mirror h)) es"
  shows "indexed (run es (init data (new_mirror h)))"
  using indexed_init [OF assms(1,2)] assms(3) by (rule indexed_run)

theorem C8_indexed_when_load_is_positional_witness:
  "distinct [0, 1::nat]
   \<and> careful_run loaded [SetProp (Prx 0 0) ''name'' (Str ''a2''), Splice 0 1 [], Push (Raw 2), Tick 500, Fire]
   \<and> indexed (run [SetProp (Prx 0 0) ''name'' (Str ''a2''), Splice 0 1 [], Push (Raw 2), Tick 500, Fire] loaded)"
proof -
  have d: "distinct [0, 1::nat]" by simp
  have l: "\<forall>j < length [0, 1::nat]. getp (two_rows ([0, 1] ! j)) ''_idx'' = Undefined
           \<or> getp (two_rows ([0, 1] ! j)) ''_idx'' = Num (int j)"
    by (simp add: two_rows_def plain_def getp_def less_Suc_eq)
  have c: "careful_run (init [0, 1] (new_mirror two_rows))
             [SetProp (Prx 0 0) ''name'' (Str ''a2''), Splice 0 1 [], Push (Raw 2), Tick 500, Fire]"
    by code_simp
  from C8_indexed_when_load_is_positional [OF d l c] d c
  show ?thesis by (simp add: loaded_def)
qed

section \<open>Coalescing of writes\<close>


lemma writes_Nil [simp]: "writes row [] s = s"
  by (simp add: writes_def)

lemma writes_Cons [simp]: "writes row (w # ws) s = writes row ws (js_set row (fst w) (snd w) s)"
  by (simp add: writes_def)



















section \<open>The phases of splice\<close>

lemma enqueueAll_Nil [simp]: "enqueueAll ty [] s = s"
  by (simp add: enqueueAll_def)

lemma enqueueAll_Cons [simp]: "enqueueAll ty (x # xs) s = enqueueAll ty xs (queueOperation x ty s)"
  by (simp add: enqueueAll_def)














section \<open>The scenarios of the specification, run on the code\<close>

text \<open>
  C1. A mirror is initialised over the two rows \<open>{_idx: 0, name: "a"}\<close> and
  \<open>{_idx: 1, name: "b"}\<close> and the caller only sets the name of row 0 to \<open>"a2"\<close>. The
  claim expects one upsert holding row 0 alone and no statement for row 1. The code
  issues an upsert that holds row 1 as well: wrapping a row writes the marker through
  the proxy's set trap, which queues a save for every loaded row. If the write comes
  within 500 ms of the load, the one upsert holds both rows; if it comes after the first
  flush, that flush has already upserted both rows unchanged.
\<close>

theorem C1_untouched_row_is_upserted:
  "gateway (run [SetProp (rows loaded ! 0) ''name'' (Str ''a2''), Tick 500, Fire] loaded) =
     [Upsert [[(''_idx'', Plain (Num 0)), (''name'', Plain (Str ''a2''))],
              [(''_idx'', Plain (Num 1)), (''name'', Plain (Str ''b''))]]]
   \<and> gateway (run [Tick 500, Fire, InsertResolved 0,
                   SetProp (rows loaded ! 0) ''name'' (Str ''a2''), Tick 500, Fire] loaded) =
     [Upsert [[(''_idx'', Plain (Num 0)), (''name'', Plain (Str ''a''))],
              [(''_idx'', Plain (Num 1)), (''name'', Plain (Str ''b''))]],
      Upsert [[(''_idx'', Plain (Num 0)), (''name'', Plain (Str ''a2''))]]]"
  by code_simp

text \<open>
  C2. In one debounce window of an idle mirror the row at position 0 is removed with
  \<open>splice(0, 1)\<close> and a new row is appended with \<open>push\<close>. The claim expects the flush to
  hold one delete for the removed row and one save, never merged. In the code the delete
  queued under identity 0 is overwritten by the save of the remaining row, which the
  reindexing queues under the same key: the queue holds saves only and no delete
  statement is ever issued.
\<close>

theorem C2_delete_overwritten_by_save:
  "operationQueue (run [Splice 0 1 []] settled) = [(Num 0, Raw 1, Save)]
   \<and> operationQueue (run [Splice 0 1 [], Push (Raw 2)] settled) =
       [(Num 0, Raw 1, Save), (Num 1, Prx 2 2, Save)]
   \<and> gateway (run [Splice 0 1 [], Push (Raw 2), Tick 500, Fire, InsertResolved 0] settled) =
       gateway settled @
       [Upsert [[(''_idx'', Plain (Num 0)), (''name'', Plain (Str ''b''))],
                [(''_idx'', Plain (Num 1)), (''name'', Plain (Str ''c''))]]]"
  by code_simp

end
